theory Spec2Isabelle
  imports Main "HOL-Library.Multiset"
begin

section \<open>Data model\<close>

text \<open>
  The three value types of \<^verbatim>\<open>const enum ValueType\<close> (index.ts, lines 21-25).
\<close>

datatype ValueType = Scalar | Array | Object

text \<open>
  Everything the source throws, or rejects a promise with, is a value of \<open>error\<close>.
  \<open>TypeError\<close> and \<open>SyntaxError\<close> are raised by the JavaScript runtime
  (\<^verbatim>\<open>Object.keys(undefined)\<close>, \<^verbatim>\<open>new undefined()\<close>, reading a property of
  \<^verbatim>\<open>undefined\<close>, iterating a non-iterable; \<^verbatim>\<open>JSON.parse\<close>), \<open>Error msg\<close> is
  \<^verbatim>\<open>new Error(msg)\<close>, \<open>ValidationError\<close> is what the validation capability fails
  with, and \<open>IOError\<close> is a failure of the persistence collaborator.
\<close>

datatype error = TypeError | SyntaxError | Error string | ValidationError | IOError

text \<open>
  A promise is modelled by the state it settles in once every pending continuation has
  run. A function that does not await a promise keeps the promise object itself as a
  value (constructor \<open>Promise\<close> below).
\<close>

datatype 'a settled = Fulfilled 'a | Rejected error

type_synonym cname = string

text \<open>
  JavaScript values: the raw tree (what \<^verbatim>\<open>JSON.parse\<close> returns), instances of
  static data classes (\<open>Inst\<close>, class name and own properties in insertion order) and
  promise objects. Numbers are integers here; no claim depends on floating point.
\<close>

datatype jsval =
    Undefined
  | Null
  | Bool bool
  | Num int
  | Str string
  | Arr "jsval list"
  | Obj "(string \<times> jsval) list"
  | Inst cname "(string \<times> jsval) list"
  | Promise "jsval settled"

text \<open>
  The second argument of the decorator (\<^verbatim>\<open>childClass?: any\<close>, stored as \<^verbatim>\<open>opts\<close>):
  either a class, or any other value (\<open>OValue Undefined\<close> when the argument is left
  out). A value passed as options is assumed to carry no truthy property
  \<^verbatim>\<open>_staticDataMeta\<close> of its own and not to be a constructor.
\<close>

datatype opts = OClass cname | OValue jsval

text \<open>\<^verbatim>\<open>interface IMetaData\<close> (lines 43-47).\<close>

record IMetaData =
  remoteName :: string
  opts :: opts
  type :: ValueType

text \<open>
  \<^verbatim>\<open>interface IMetaDataMap\<close>: an object from field names to metadata, kept as an
  association list in insertion order, which is the order of \<^verbatim>\<open>Object.keys\<close> for
  property names that are not array indices.
\<close>

type_synonym IMetaDataMap = "(string \<times> IMetaData) list"

text \<open>
  The static slot \<^verbatim>\<open>_staticDataMeta\<close> of every class: \<open>None\<close> is \<^verbatim>\<open>undefined\<close>
  (the class was never annotated). Every class has a slot of its own (a subclass
  sharing the slot of the class it extends is not represented).
\<close>

type_synonym ctable = "cname \<Rightarrow> IMetaDataMap option"

text \<open>
  What \<^verbatim>\<open>new C()\<close> does for every class \<open>C\<close>: the constructor, called without
  arguments, either throws, or returns an instance with the own properties that the
  constructor and the property initialisers of the class have set.
\<close>

type_synonym constructors = "cname \<Rightarrow> error + (string \<times> jsval) list"

text \<open>
  The validation capability \<^verbatim>\<open>validator.validate\<close>: the settlement of the promise it
  returns for an instance.
\<close>

type_synonym validator = "jsval \<Rightarrow> jsval settled"

section \<open>Objects\<close>

text \<open>\<^verbatim>\<open>o[key] = v\<close> on the own properties of an object: replace in place, or append.\<close>

fun obj_set :: "(string \<times> 'a) list \<Rightarrow> string \<Rightarrow> 'a \<Rightarrow> (string \<times> 'a) list" where
  "obj_set [] k v = [(k, v)]"
| "obj_set ((k', v') # ps) k v =
     (if k' = k then (k, v) # ps else (k', v') # obj_set ps k v)"

text \<open>
  \<^verbatim>\<open>data[key]\<close>. Reading a property of \<^verbatim>\<open>undefined\<close> or \<^verbatim>\<open>null\<close> throws; a missing
  property reads as \<^verbatim>\<open>undefined\<close>. Of the built-in properties only \<^verbatim>\<open>length\<close> of
  strings and arrays is modelled: field names are assumed to be neither array indices nor
  names of inherited built-in members.
\<close>

fun get_prop :: "jsval \<Rightarrow> string \<Rightarrow> error + jsval" where
  "get_prop Undefined k = Inl TypeError"
| "get_prop Null k = Inl TypeError"
| "get_prop (Obj ps) k = (case map_of ps k of None \<Rightarrow> Inr Undefined | Some v \<Rightarrow> Inr v)"
| "get_prop (Inst c ps) k = (case map_of ps k of None \<Rightarrow> Inr Undefined | Some v \<Rightarrow> Inr v)"
| "get_prop (Str s) k = (if k = ''length'' then Inr (Num (int (length s))) else Inr Undefined)"
| "get_prop (Arr xs) k = (if k = ''length'' then Inr (Num (int (length xs))) else Inr Undefined)"
| "get_prop (Bool b) k = Inr Undefined"
| "get_prop (Num n) k = Inr Undefined"
| "get_prop (Promise p) k = Inr Undefined"

text \<open>\<^verbatim>\<open>instance[key] = v\<close> on an instance (or a plain object).\<close>

fun set_prop :: "jsval \<Rightarrow> string \<Rightarrow> jsval \<Rightarrow> jsval" where
  "set_prop (Inst c ps) k v = Inst c (obj_set ps k v)"
| "set_prop (Obj ps) k v = Obj (obj_set ps k v)"
| "set_prop x k v = x"

text \<open>
  \<^verbatim>\<open>for (const arrayVal of val)\<close>: arrays yield their elements, strings their
  characters, anything else is not iterable.
\<close>

fun iterate :: "jsval \<Rightarrow> error + jsval list" where
  "iterate (Arr xs) = Inr xs"
| "iterate (Str s) = Inr (map (\<lambda>c. Str [c]) s)"
| "iterate x = Inl TypeError"

text \<open>\<^verbatim>\<open>Object.keys(meta)\<close> throws on \<^verbatim>\<open>undefined\<close>.\<close>

fun Object_keys :: "IMetaDataMap option \<Rightarrow> error + string list" where
  "Object_keys None = Inl TypeError"
| "Object_keys (Some m) = Inr (map fst m)"

text \<open>JavaScript truthiness, for \<^verbatim>\<open>data || this.staticData\<close>.\<close>

fun truthy :: "jsval \<Rightarrow> bool" where
  "truthy Undefined = False"
| "truthy Null = False"
| "truthy (Bool b) = b"
| "truthy (Num n) = (n \<noteq> 0)"
| "truthy (Str s) = (s \<noteq> [])"
| "truthy x = True"

text \<open>
  What an async function's promise settles to when the function returns \<open>v\<close>: a
  returned promise is adopted, any other value fulfils it.
\<close>

fun async_return :: "jsval \<Rightarrow> jsval settled" where
  "async_return (Promise s) = s"
| "async_return v = Fulfilled v"

section \<open>The walker\<close>

text \<open>
  \<^verbatim>\<open>new (<any> Target)()\<close> and \<^verbatim>\<open>Target._staticDataMeta\<close>, for the second argument
  of \<^verbatim>\<open>walk\<close>: a value that is not a class is not a constructor, and has no
  registry.
\<close>

fun new_Target :: "constructors \<Rightarrow> opts \<Rightarrow> error + jsval" where
  "new_Target K (OValue v) = Inl TypeError"
| "new_Target K (OClass c) = (case K c of Inl e \<Rightarrow> Inl e | Inr ps \<Rightarrow> Inr (Inst c ps))"

fun static_meta :: "ctable \<Rightarrow> opts \<Rightarrow> IMetaDataMap option" where
  "static_meta ct (OValue v) = None"
| "static_meta ct (OClass c) = ct c"

text \<open>A termination measure on raw values for the walker.\<close>

fun rank :: "jsval \<Rightarrow> nat" where
  "rank Undefined = 0"
| "rank Null = 0"
| "rank (Bool b) = 1"
| "rank (Num n) = 1"
| "rank (Str s) = 2"
| "rank (Arr xs) = 3 + sum_list (map rank xs)"
| "rank (Obj ps) = 3 + sum_list (map (\<lambda>p. rank (snd p)) ps)"
| "rank (Inst c ps) = 3 + sum_list (map (\<lambda>p. rank (snd p)) ps)"
| "rank (Promise p) = 3"

fun max_rank :: "jsval list \<Rightarrow> nat" where
  "max_rank [] = 0"
| "max_rank (x # xs) = max (rank x) (max_rank xs)"

lemma rank_map_of:
  "map_of ps k = Some v \<Longrightarrow> rank v \<le> sum_list (map (\<lambda>p. rank (snd p)) ps)"
  by (induction ps) (auto split: if_splits)

lemma rank_get_prop: "get_prop d k = Inr v \<Longrightarrow> rank v < rank d"
  by (cases d) (auto split: option.splits if_splits dest: rank_map_of)

lemma max_rank_le_sum: "max_rank xs \<le> sum_list (map rank xs)"
  by (induction xs) auto

lemma max_rank_chars: "max_rank (map (\<lambda>c. Str [c]) s) \<le> 2"
  by (induction s) auto

lemma rank_iterate: "iterate v = Inr es \<Longrightarrow> max_rank es \<le> rank v"
proof (cases v)
  case (Arr xs)
  assume "iterate v = Inr es"
  with Arr have "es = xs" by simp
  with Arr show ?thesis using max_rank_le_sum [of xs] by simp
next
  case (Str s)
  assume "iterate v = Inr es"
  with Str show ?thesis using max_rank_chars [of s] by auto
qed auto

text \<open>
  \<^verbatim>\<open>walk\<close> (lines 128-145) and \<^verbatim>\<open>parseAttribute\<close> (lines 154-173).

  \<^verbatim>\<open>walk\<close> is synchronous: its result is either the error it throws (that of the
  constructor, of \<^verbatim>\<open>Object.keys\<close>, or of reading a property of the raw node) or the
  instance it returns. \<^verbatim>\<open>parseAttribute\<close> is an \<^verbatim>\<open>async\<close> function: it never throws, it
  returns a promise, and whatever its body throws becomes the rejection of that promise.
  \<^verbatim>\<open>walk\<close> stores the promise returned by \<^verbatim>\<open>parseAttribute\<close> in the instance without
  awaiting it.

  Second component of every result: the instances on which \<^verbatim>\<open>validator.validate\<close> is
  invoked by the asynchronous calls started by this call, in the order of each call
  (the interleaving of different asynchronous calls is not represented).

  \<open>walk_keys\<close> is the loop \<^verbatim>\<open>for (const key of keys)\<close> over the entries of the
  registry; \<open>parse_elems\<close> is the loop \<^verbatim>\<open>for (const arrayVal of val)\<close>, with
  \<^verbatim>\<open>arrayInstance\<close> as its last argument.
\<close>

function
  walk :: "validator \<Rightarrow> constructors \<Rightarrow> ctable \<Rightarrow> jsval \<Rightarrow> opts \<Rightarrow> (error + jsval) \<times> jsval list"
and
  walk_keys :: "validator \<Rightarrow> constructors \<Rightarrow> ctable \<Rightarrow> jsval \<Rightarrow> IMetaDataMap \<Rightarrow> jsval \<Rightarrow> (error + jsval) \<times> jsval list"
and
  parseAttribute :: "validator \<Rightarrow> constructors \<Rightarrow> ctable \<Rightarrow> jsval \<Rightarrow> IMetaData \<Rightarrow> jsval \<times> jsval list"
and
  parse_elems :: "validator \<Rightarrow> constructors \<Rightarrow> ctable \<Rightarrow> jsval list \<Rightarrow> opts \<Rightarrow> jsval list \<Rightarrow> jsval settled \<times> jsval list"
where
  "walk V K ct data Target =
     (case new_Target K Target of
        Inl e \<Rightarrow> (Inl e, [])
      | Inr instance \<Rightarrow>
          (let meta = static_meta ct Target in
           case Object_keys meta of
             Inl e \<Rightarrow> (Inl e, [])
           | Inr keys \<Rightarrow>
               (case meta of
                  None \<Rightarrow> (Inl (Error ''Missing metadata!''), [])
                | Some m \<Rightarrow> walk_keys V K ct data m instance)))"
| "walk_keys V K ct data [] instance = (Inr instance, [])"
| "walk_keys V K ct data ((key, keyMeta) # ks) instance =
     (case get_prop data key of
        Inl e \<Rightarrow> (Inl e, [])
      | Inr val \<Rightarrow>
          (case parseAttribute V K ct val keyMeta of
             (p, l1) \<Rightarrow>
               (case walk_keys V K ct data ks (set_prop instance key p) of
                  (r, l2) \<Rightarrow> (r, l1 @ l2))))"
| "parseAttribute V K ct val keyMeta =
     (case type keyMeta of
        Scalar \<Rightarrow> (Promise (async_return val), [])
      | Array \<Rightarrow>
          (case iterate val of
             Inl e \<Rightarrow> (Promise (Rejected e), [])
           | Inr elems \<Rightarrow>
               (case parse_elems V K ct elems (opts keyMeta) [] of
                  (s, l) \<Rightarrow> (Promise s, l)))
      | Object \<Rightarrow>
          (case walk V K ct val (opts keyMeta) of
             (Inl e, l) \<Rightarrow> (Promise (Rejected e), l)
           | (Inr instance, l) \<Rightarrow>
               (case V instance of
                  Rejected e \<Rightarrow> (Promise (Rejected e), l @ [instance])
                | Fulfilled u \<Rightarrow> (Promise (Fulfilled instance), l @ [instance]))))"
| "parse_elems V K ct [] childClass arrayInstance = (Fulfilled (Arr arrayInstance), [])"
| "parse_elems V K ct (arrayVal # rest) childClass arrayInstance =
     (case walk V K ct arrayVal childClass of
        (Inl e, l) \<Rightarrow> (Rejected e, l)
      | (Inr childInstance, l) \<Rightarrow>
          (case V childInstance of
             Rejected e \<Rightarrow> (Rejected e, l @ [childInstance])
           | Fulfilled u \<Rightarrow>
               (case parse_elems V K ct rest childClass (arrayInstance @ [childInstance]) of
                  (s, l2) \<Rightarrow> (s, l @ [childInstance] @ l2))))"
  by pat_completeness auto

termination
proof (relation "measures
    [\<lambda>x. case x of
        Inl (Inl (V, K, ct, d, T)) \<Rightarrow> rank d
      | Inl (Inr (V, K, ct, d, ks, i)) \<Rightarrow> rank d
      | Inr (Inl (V, K, ct, v, m)) \<Rightarrow> rank v
      | Inr (Inr (V, K, ct, es, c, a)) \<Rightarrow> max_rank es,
     \<lambda>x. case x of
        Inl (Inl (V, K, ct, d, T)) \<Rightarrow> 1
      | Inl (Inr (V, K, ct, d, ks, i)) \<Rightarrow> 0
      | Inr (Inl (V, K, ct, v, m)) \<Rightarrow> 3
      | Inr (Inr (V, K, ct, es, c, a)) \<Rightarrow> 2,
     \<lambda>x. case x of
        Inl (Inl (V, K, ct, d, T)) \<Rightarrow> 0
      | Inl (Inr (V, K, ct, d, ks, i)) \<Rightarrow> length ks
      | Inr (Inl (V, K, ct, v, m)) \<Rightarrow> 0
      | Inr (Inr (V, K, ct, es, c, a)) \<Rightarrow> length es]")
  show "wf (measures
    [\<lambda>x. case x of
        Inl (Inl (V, K, ct, d, T)) \<Rightarrow> rank d
      | Inl (Inr (V, K, ct, d, ks, i)) \<Rightarrow> rank d
      | Inr (Inl (V, K, ct, v, m)) \<Rightarrow> rank v
      | Inr (Inr (V, K, ct, es, c, a)) \<Rightarrow> max_rank es,
     \<lambda>x. case x of
        Inl (Inl (V, K, ct, d, T)) \<Rightarrow> 1
      | Inl (Inr (V, K, ct, d, ks, i)) \<Rightarrow> 0
      | Inr (Inl (V, K, ct, v, m)) \<Rightarrow> 3
      | Inr (Inr (V, K, ct, es, c, a)) \<Rightarrow> 2,
     \<lambda>x. case x of
        Inl (Inl (V, K, ct, d, T)) \<Rightarrow> 0
      | Inl (Inr (V, K, ct, d, ks, i)) \<Rightarrow> length ks
      | Inr (Inl (V, K, ct, v, m)) \<Rightarrow> 0
      | Inr (Inr (V, K, ct, es, c, a)) \<Rightarrow> length es])"
    by simp
qed (auto dest: rank_get_prop rank_iterate)

section \<open>Type classification and the registry\<close>

text \<open>
  The constructor that TypeScript records as \<^verbatim>\<open>design:type\<close> for a field: one of the
  built-in constructors, or a class together with the constructor it extends
  (\<open>Object_ctor\<close> for a class without an \<^verbatim>\<open>extends\<close> clause).
\<close>

datatype ctor =
    String_ctor
  | Number_ctor
  | Boolean_ctor
  | Array_ctor
  | Object_ctor
  | Function_ctor
  | Symbol_ctor
  | Class_ctor cname ctor

text \<open>
  \<^verbatim>\<open>new Info()\<close>: \<^verbatim>\<open>Info\<close> is \<^verbatim>\<open>undefined\<close> when no \<^verbatim>\<open>design:type\<close> was recorded
  (\<open>None\<close>), and \<^verbatim>\<open>Symbol\<close> is not a constructor; both throw. The constructor of a
  class may throw as well. The object created is identified by its constructor.
\<close>

fun new_Info :: "constructors \<Rightarrow> ctor option \<Rightarrow> error + ctor" where
  "new_Info K None = Inl TypeError"
| "new_Info K (Some Symbol_ctor) = Inl TypeError"
| "new_Info K (Some (Class_ctor c super)) =
     (case K c of Inl e \<Rightarrow> Inl e | Inr ps \<Rightarrow> Inr (Class_ctor c super))"
| "new_Info K (Some k) = Inr k"

text \<open>The constructors whose prototypes are on the prototype chain of an instance.\<close>

fun proto_chain :: "ctor \<Rightarrow> ctor list" where
  "proto_chain Object_ctor = [Object_ctor]"
| "proto_chain (Class_ctor c super) = Class_ctor c super # proto_chain super"
| "proto_chain k = [k, Object_ctor]"

definition instanceof :: "ctor \<Rightarrow> ctor \<Rightarrow> bool" where
  "instanceof instance k = (k \<in> set (proto_chain instance))"

text \<open>\<^verbatim>\<open>Array.isArray\<close>: arrays, and instances of classes that extend \<^verbatim>\<open>Array\<close>.\<close>

fun Array_isArray :: "ctor \<Rightarrow> bool" where
  "Array_isArray Array_ctor = True"
| "Array_isArray (Class_ctor c super) = Array_isArray super"
| "Array_isArray k = False"

text \<open>
  \<^verbatim>\<open>computeMetadata\<close> (lines 75-91). The first argument stands for
  \<^verbatim>\<open>Reflect.getMetadata('design:type', target, key)\<close>, the declared type of field
  \<open>key\<close> of class \<open>target\<close>.
\<close>

definition computeMetadata ::
  "constructors \<Rightarrow> (cname \<Rightarrow> string \<Rightarrow> ctor option) \<Rightarrow> cname \<Rightarrow> string \<Rightarrow> string \<Rightarrow> opts \<Rightarrow> error + IMetaData" where
  "computeMetadata K design_type target key remoteName' opts' =
     (case new_Info K (design_type target key) of
        Inl e \<Rightarrow> Inl e
      | Inr instance \<Rightarrow>
          Inr \<lparr> remoteName = remoteName',
                opts = opts',
                type =
                  (if instanceof instance String_ctor \<or> instanceof instance Number_ctor
                      \<or> instanceof instance Boolean_ctor
                   then Scalar
                   else if Array_isArray instance then Array
                   else Object) \<rparr>)"



section \<open>The schema extractor\<close>

text \<open>
  The object built by \<^verbatim>\<open>extractMetaData\<close>: per field \<^verbatim>\<open>{ name, type, meta }\<close>, where
  \<^verbatim>\<open>meta\<close> is either the options as they are or the object extracted from the nested
  class.
\<close>

datatype schema_field = SchemaField string ValueType schema_meta
and schema_meta = MetaOpts opts | MetaSchema "(string \<times> schema_field) list"

text \<open>
  \<^verbatim>\<open>extractMetaData\<close> (lines 98-118). The recursion follows the class references in the
  registry, which may be cyclic, so the first argument bounds the depth of nested calls:
  \<open>None\<close> means that the bound was reached. \<open>extract_keys\<close> is the loop
  \<^verbatim>\<open>for (const key of keys)\<close> with \<^verbatim>\<open>ret\<close> as its last argument.
\<close>

fun
  extractMetaData :: "nat \<Rightarrow> ctable \<Rightarrow> cname \<Rightarrow> (error + (string \<times> schema_field) list) option"
and
  extract_keys :: "nat \<Rightarrow> ctable \<Rightarrow> IMetaDataMap \<Rightarrow> (string \<times> schema_field) list
     \<Rightarrow> (error + (string \<times> schema_field) list) option"
where
  "extractMetaData 0 ct target = None"
| "extractMetaData (Suc n) ct target =
     (case Object_keys (ct target) of
        Inl e \<Rightarrow> Some (Inl e)
      | Inr keys \<Rightarrow>
          (case ct target of
             None \<Rightarrow> Some (Inl TypeError)
           | Some m \<Rightarrow> extract_keys n ct m []))"
| "extract_keys n ct [] ret = Some (Inr ret)"
| "extract_keys n ct ((key, keyMeta) # ks) ret =
     (case opts keyMeta of
        OValue v \<Rightarrow>
          extract_keys n ct ks
            (obj_set ret key (SchemaField (remoteName keyMeta) (type keyMeta) (MetaOpts (opts keyMeta))))
      | OClass c \<Rightarrow>
          (case ct c of
             None \<Rightarrow>
               extract_keys n ct ks
                 (obj_set ret key (SchemaField (remoteName keyMeta) (type keyMeta) (MetaOpts (opts keyMeta))))
           | Some m' \<Rightarrow>
               (case extractMetaData n ct c of
                  None \<Rightarrow> None
                | Some (Inl e) \<Rightarrow> Some (Inl e)
                | Some (Inr s) \<Rightarrow>
                    extract_keys n ct ks
                      (obj_set ret key (SchemaField (remoteName keyMeta) (type keyMeta) (MetaSchema s))))))"

section \<open>The module\<close>

text \<open>
  What \<^verbatim>\<open>AbstractStaticDataModule\<close> takes from outside: the validation capability,
  the constructors and the static slots of the classes, \<^verbatim>\<open>JSON.parse\<close> and \<^verbatim>\<open>JSON.stringify\<close>, and the
  methods \<^verbatim>\<open>load\<close> and \<^verbatim>\<open>store\<close>, which the inheriting class provides, over a
  backend of type \<open>'st\<close>.
\<close>

record 'st collaborators =
  validator_validate :: validator
  construct :: constructors
  classes :: ctable
  JSON_parse :: "jsval \<Rightarrow> error + jsval"
  JSON_stringify :: "jsval \<Rightarrow> string"
  load_impl :: "'st \<Rightarrow> error + string"
  store_impl :: "'st \<Rightarrow> string \<Rightarrow> error + 'st"

text \<open>What the module does to the outside, in order.\<close>

datatype event = Loaded | Stored string | CalledBack "error option"

record 'st module =
  StaticDataClass :: cname
  staticData :: jsval
  backend :: 'st
  events :: "event list"

definition load :: "'st collaborators \<Rightarrow> 'st module \<Rightarrow> (error + string) \<times> 'st module" where
  "load env m = (load_impl env (backend m), m\<lparr>events := events m @ [Loaded]\<rparr>)"

definition store :: "'st collaborators \<Rightarrow> 'st module \<Rightarrow> string \<Rightarrow> (error + unit) \<times> 'st module" where
  "store env m data =
     (case store_impl env (backend m) data of
        Inl e \<Rightarrow> (Inl e, m\<lparr>events := events m @ [Stored data]\<rparr>)
      | Inr b \<Rightarrow> (Inr (), m\<lparr>backend := b, events := events m @ [Stored data]\<rparr>))"

text \<open>\<^verbatim>\<open>parse\<close> (lines 383-388): synchronous, throws what \<^verbatim>\<open>JSON.parse\<close> or \<^verbatim>\<open>walk\<close> throws.\<close>

definition parse :: "'st collaborators \<Rightarrow> 'st module \<Rightarrow> jsval \<Rightarrow> error + jsval" where
  "parse env m json =
     (case JSON_parse env json of
        Inl e \<Rightarrow> Inl e
      | Inr data \<Rightarrow> fst (walk (validator_validate env) (construct env) (classes env) data (OClass (StaticDataClass m))))"

text \<open>\<^verbatim>\<open>stringify\<close> (lines 398-400); an omitted argument is \<open>Undefined\<close>.\<close>

definition stringify :: "'st collaborators \<Rightarrow> 'st module \<Rightarrow> jsval \<Rightarrow> string" where
  "stringify env m data = JSON_stringify env (if truthy data then data else staticData m)"

text \<open>\<^verbatim>\<open>validate\<close> (lines 303-305): the settlement of the promise it returns.\<close>

definition validate :: "'st collaborators \<Rightarrow> 'st module \<Rightarrow> jsval \<Rightarrow> error + unit" where
  "validate env m data = (case parse env m data of Inl e \<Rightarrow> Inl e | Inr instance \<Rightarrow> Inr ())"

text \<open>
  \<^verbatim>\<open>import\<close> (lines 287-291): the settlement of its promise and the module afterwards.
  Each \<^verbatim>\<open>await\<close> of a rejected promise ends the function with that rejection.
\<close>

definition import :: "'st collaborators \<Rightarrow> 'st module \<Rightarrow> jsval \<Rightarrow> (error + unit) \<times> 'st module" where
  "import env m data =
     (case validate env m data of
        Inl e \<Rightarrow> (Inl e, m)
      | Inr u \<Rightarrow>
          (case store env m (stringify env m data) of
             (Inl e, m1) \<Rightarrow> (Inl e, m1)
           | (Inr u1, m1) \<Rightarrow>
               (case load env m1 of
                  (Inl e, m2) \<Rightarrow> (Inl e, m2)
                | (Inr s, m2) \<Rightarrow> (Inr (), m2))))"

text \<open>
  \<^verbatim>\<open>setup\<close> (lines 263-275): the settlement of its promise and the module afterwards.
  The \<^verbatim>\<open>try\<close> block loads and parses; the \<^verbatim>\<open>catch\<close> block runs
  \<^verbatim>\<open>new this.StaticDataClass()\<close>, which is not guarded: when that constructor throws,
  the promise of \<^verbatim>\<open>setup\<close> is rejected and the callback is not reached. Otherwise the
  callback is called, without an argument.
\<close>

definition module_setup :: "'st collaborators \<Rightarrow> 'st module \<Rightarrow> (error + unit) \<times> 'st module" where
  "module_setup env m =
     (let (r, m1) =
            (case load env m of
               (Inl e, m') \<Rightarrow> (Inl e, m')
             | (Inr data, m') \<Rightarrow>
                 (case parse env m' (Str data) of
                    Inl e \<Rightarrow> (Inl e, m')
                  | Inr instance \<Rightarrow> (Inr (), m'\<lparr>staticData := instance\<rparr>)))
      in case r of
           Inr u \<Rightarrow> (Inr (), m1\<lparr>events := events m1 @ [CalledBack None]\<rparr>)
         | Inl e \<Rightarrow>
             (case new_Target (construct env) (OClass (StaticDataClass m1)) of
                Inl e' \<Rightarrow> (Inl e', m1)
              | Inr instance \<Rightarrow>
                  (Inr (), m1\<lparr>staticData := instance,
                               events := events m1 @ [CalledBack None]\<rparr>)))"

section \<open>Notions used in the statements\<close>



text \<open>
  An array element whose walk returns and whose validation succeeds, and the instance
  that \<^verbatim>\<open>walk\<close> returns for an element.
\<close>

definition element_ok :: "validator \<Rightarrow> constructors \<Rightarrow> ctable \<Rightarrow> opts \<Rightarrow> jsval \<Rightarrow> bool" where
  "element_ok V K ct childClass x =
     (case fst (walk V K ct x childClass) of
        Inl e \<Rightarrow> False
      | Inr i \<Rightarrow> (case V i of Fulfilled u \<Rightarrow> True | Rejected e \<Rightarrow> False))"

definition walked :: "validator \<Rightarrow> constructors \<Rightarrow> ctable \<Rightarrow> opts \<Rightarrow> jsval \<Rightarrow> jsval" where
  "walked V K ct childClass x =
     (case fst (walk V K ct x childClass) of Inl e \<Rightarrow> Undefined | Inr i \<Rightarrow> i)"

text \<open>
  \<open>(c, c')\<close> is in \<open>nested_classes ct\<close> when \<open>c\<close> is annotated and one of its fields
  has the annotated class \<open>c'\<close> as its options: \<^verbatim>\<open>extractMetaData\<close> called on \<open>c\<close>
  calls itself on \<open>c'\<close>. The chain of nested classes of \<open>C\<close> is acyclic when no
  class that can be reached from \<open>C\<close> along such references (\<open>C\<close> included) reaches
  itself.
\<close>

definition nested_classes :: "ctable \<Rightarrow> (cname \<times> cname) set" where
  "nested_classes ct =
     {(c, c'). \<exists>r k m r'. ct c = Some r \<and> (k, m) \<in> set r \<and> opts m = OClass c' \<and> ct c' = Some r'}"

definition acyclic_from :: "ctable \<Rightarrow> cname \<Rightarrow> bool" where
  "acyclic_from ct C =
     (\<forall>c. (C, c) \<in> rtrancl (nested_classes ct) \<longrightarrow> (c, c) \<notin> trancl (nested_classes ct))"

text \<open>
  \<^verbatim>\<open>extractMetaData\<close> returns the schema \<open>s\<close> for the class \<open>c\<close>: it does so at every
  recursion depth from some depth on.
\<close>

definition extracts_to :: "ctable \<Rightarrow> cname \<Rightarrow> (string \<times> schema_field) list \<Rightarrow> bool" where
  "extracts_to ct c s = (\<exists>n0. \<forall>n\<ge>n0. extractMetaData n ct c = Some (Inr s))"

text \<open>
  The \<^verbatim>\<open>meta\<close> entry of a field, given the schema \<open>S c\<close> of every annotated class:
  the schema of the nested class when the options are an annotated class, the options
  as they are otherwise.
\<close>

definition field_meta :: "ctable \<Rightarrow> (cname \<Rightarrow> (string \<times> schema_field) list) \<Rightarrow> IMetaData \<Rightarrow> schema_meta" where
  "field_meta ct S m =
     (case opts m of
        OValue v \<Rightarrow> MetaOpts (opts m)
      | OClass c \<Rightarrow> (case ct c of None \<Rightarrow> MetaOpts (opts m) | Some r \<Rightarrow> MetaSchema (S c)))"

section \<open>Example classes\<close>

text \<open>
  The classes of the scenario: \<^verbatim>\<open>Item\<close> with a scalar \<^verbatim>\<open>id\<close> (remote name
  \<^verbatim>\<open>ID\<close>) and an array \<^verbatim>\<open>tags\<close> of \<^verbatim>\<open>Tag\<close> (remote name \<^verbatim>\<open>Tags\<close>),
  \<^verbatim>\<open>Tag\<close> with a scalar \<^verbatim>\<open>label\<close> (remote name \<^verbatim>\<open>Label\<close>); \<^verbatim>\<open>Shelf\<close>
  with an object field \<^verbatim>\<open>first\<close> of class \<^verbatim>\<open>Item\<close>. Every other class is not
  annotated.
\<close>

definition catalogue :: ctable where
  "catalogue c =
     (if c = ''Item'' then
        Some [(''id'', \<lparr>remoteName = ''ID'', opts = OValue Undefined, type = Scalar\<rparr>),
              (''tags'', \<lparr>remoteName = ''Tags'', opts = OClass ''Tag'', type = Array\<rparr>)]
      else if c = ''Tag'' then
        Some [(''label'', \<lparr>remoteName = ''Label'', opts = OValue Undefined, type = Scalar\<rparr>)]
      else if c = ''Shelf'' then
        Some [(''first'', \<lparr>remoteName = ''First'', opts = OClass ''Item'', type = Object\<rparr>)]
      else None)"

text \<open>A class whose only field refers to the class itself.\<close>

definition linked :: ctable where
  "linked c =
     (if c = ''Node'' then
        Some [(''next'', \<lparr>remoteName = ''Next'', opts = OClass ''Node'', type = Object\<rparr>)]
      else None)"

text \<open>
  Validation capabilities: one that fails on every instance, one that succeeds on every
  instance (with an empty list of violations), and one that fails exactly on the
  instances whose \<^verbatim>\<open>label\<close> resolves to a given string.
\<close>

definition reject_all :: validator where
  "reject_all v = Rejected ValidationError"

definition accept_all :: validator where
  "accept_all v = Fulfilled (Arr [])"

definition reject_label :: "string \<Rightarrow> validator" where
  "reject_label s v =
     (if get_prop v ''label'' = Inr (Promise (Fulfilled (Str s)))
      then Rejected ValidationError else Fulfilled (Arr []))"

text \<open>
  The constructors of these classes are the implicit ones: they set no property and do
  not throw.
\<close>

definition bare :: constructors where
  "bare c = Inr []"

text \<open>The declared types of the fields of these classes.\<close>

definition declared :: "cname \<Rightarrow> string \<Rightarrow> ctor option" where
  "declared c f =
     (if c = ''Item'' \<and> f = ''id'' then Some Number_ctor
      else if c = ''Item'' \<and> f = ''tags'' then Some Array_ctor
      else if c = ''Tag'' \<and> f = ''label'' then Some String_ctor
      else if c = ''Shelf'' \<and> f = ''first'' then Some (Class_ctor ''Item'' Object_ctor)
      else None)"

text \<open>The classes of the scenario together with the class that refers to itself.\<close>

definition catalogue_with_node :: ctable where
  "catalogue_with_node c = (if c = ''Node'' then linked c else catalogue c)"


text \<open>
  A module over a backend that holds at most one dump, with a \<^verbatim>\<open>JSON.parse\<close> that
  knows two texts.
\<close>

definition toy_parse :: "jsval \<Rightarrow> error + jsval" where
  "toy_parse v =
     (if v = Str ''null'' then Inr Null
      else if v = Str ''{}'' then Inr (Obj [])
      else Inl SyntaxError)"

definition memory_env :: "string option collaborators" where
  "memory_env =
     \<lparr> validator_validate = accept_all,
       construct = bare,
       classes = catalogue,
       JSON_parse = toy_parse,
       JSON_stringify = (\<lambda>v. ''{}''),
       load_impl = (\<lambda>b. case b of None \<Rightarrow> Inl IOError | Some s \<Rightarrow> Inr s),
       store_impl = (\<lambda>b s. Inr (Some s)) \<rparr>"

definition fresh_module :: "string option module" where
  "fresh_module =
     \<lparr> StaticDataClass = ''Item'', staticData = Inst ''Item'' [], backend = None, events = [] \<rparr>"

section \<open>Facts about objects and the walker\<close>

text \<open>
  Assignment to an object behaves as a map update. \<^verbatim>\<open>walk\<close> throws nothing but
  what the constructor of its target throws, or a \<^verbatim>\<open>TypeError\<close>; in the instance it
  returns, every registered field holds the promise that \<^verbatim>\<open>parseAttribute\<close> returned
  for the raw value of that field.
\<close>

lemma map_of_obj_set: "map_of (obj_set ps k v) = (map_of ps)(k \<mapsto> v)"
  by (induction ps) (auto simp: fun_eq_iff)

lemma keys_obj_set: "fst ` set (obj_set ps k v) = insert k (fst ` set ps)"
proof (induction ps)
  case Nil
  show ?case by simp
next
  case (Cons p ps)
  obtain k' v' where p: "p = (k', v')" by (cases p)
  show ?case
  proof (cases "k' = k")
    case True
    then show ?thesis by (simp add: p)
  next
    case False
    then show ?thesis using Cons.IH by (simp add: p insert_commute)
  qed
qed

lemma distinct_obj_set: "distinct (map fst ps) \<Longrightarrow> distinct (map fst (obj_set ps k v))"
  by (induction ps) (auto simp: keys_obj_set)

lemma obj_set_fresh: "k \<notin> fst ` set ps \<Longrightarrow> obj_set ps k v = ps @ [(k, v)]"
  by (induction ps) auto

lemma fst_walk_keys_Cons:
  "fst (walk_keys V K ct data ((key, keyMeta) # ks) inst) =
     (case get_prop data key of
        Inl e \<Rightarrow> Inl e
      | Inr val \<Rightarrow> fst (walk_keys V K ct data ks (set_prop inst key (fst (parseAttribute V K ct val keyMeta)))))"
  by (simp split: sum.splits prod.splits)

lemma walk_keys_throws_TypeError:
  "fst (walk_keys V K ct data ks inst) = Inl e \<Longrightarrow> e = TypeError \<and> (data = Undefined \<or> data = Null)"
proof (induction ks arbitrary: inst)
  case Nil
  then show ?case by simp
next
  case (Cons p ks)
  obtain key keyMeta where p: "p = (key, keyMeta)" by (cases p)
  show ?case
  proof (cases "get_prop data key")
    case (Inl e')
    with Cons.prems have "e = e'"
      by (simp add: p fst_walk_keys_Cons del: walk_keys.simps parseAttribute.simps)
    with Inl show ?thesis by (cases data) (auto split: option.splits if_splits)
  next
    case (Inr val)
    with Cons.prems
    have "fst (walk_keys V K ct data ks (set_prop inst key (fst (parseAttribute V K ct val keyMeta)))) = Inl e"
      by (simp add: p fst_walk_keys_Cons del: walk_keys.simps parseAttribute.simps)
    then show ?thesis by (rule Cons.IH)
  qed
qed

lemma walk_throws_only:
  "fst (walk V K ct data Target) = Inl e \<Longrightarrow>
     e = TypeError \<or> (\<exists>c. Target = OClass c \<and> K c = Inl e)"
proof (cases Target)
  case (OValue v)
  assume "fst (walk V K ct data Target) = Inl e"
  with OValue show ?thesis by simp
next
  case (OClass c)
  assume a: "fst (walk V K ct data Target) = Inl e"
  show ?thesis
  proof (cases "K c")
    case (Inl e')
    with a OClass show ?thesis by simp
  next
    case (Inr ps)
    show ?thesis
    proof (cases "ct c")
      case None
      with a OClass Inr show ?thesis by simp
    next
      case (Some m)
      with a OClass Inr have "fst (walk_keys V K ct data m (Inst c ps)) = Inl e" by simp
      then show ?thesis by (auto dest: walk_keys_throws_TypeError)
    qed
  qed
qed

lemma walk_keys_get_other:
  "fst (walk_keys V K ct data ks (Inst c ps)) = Inr result \<Longrightarrow> f \<notin> fst ` set ks \<Longrightarrow>
   get_prop result f = get_prop (Inst c ps) f"
proof (induction ks arbitrary: ps)
  case Nil
  then show ?case by simp
next
  case (Cons p ks)
  obtain key keyMeta where p: "p = (key, keyMeta)" by (cases p)
  from Cons.prems(2) have ne: "key \<noteq> f" and nin: "f \<notin> fst ` set ks" by (auto simp: p)
  from Cons.prems(1) obtain val where val: "get_prop data key = Inr val"
    and rest: "fst (walk_keys V K ct data ks (Inst c (obj_set ps key (fst (parseAttribute V K ct val keyMeta))))) = Inr result"
    by (auto simp: p fst_walk_keys_Cons simp del: walk_keys.simps parseAttribute.simps split: sum.splits)
  from Cons.IH [OF rest nin] ne show ?case
    by (simp add: map_of_obj_set del: parseAttribute.simps)
qed

lemma walk_keys_field:
  "fst (walk_keys V K ct data ks (Inst c ps)) = Inr result \<Longrightarrow> distinct (map fst ks) \<Longrightarrow>
   (f, m) \<in> set ks \<Longrightarrow>
   \<exists>val. get_prop data f = Inr val \<and> get_prop result f = Inr (fst (parseAttribute V K ct val m))"
proof (induction ks arbitrary: ps)
  case Nil
  then show ?case by simp
next
  case (Cons p ks)
  obtain key keyMeta where p: "p = (key, keyMeta)" by (cases p)
  from Cons.prems(1) obtain val where val: "get_prop data key = Inr val"
    and rest: "fst (walk_keys V K ct data ks (Inst c (obj_set ps key (fst (parseAttribute V K ct val keyMeta))))) = Inr result"
    by (auto simp: p fst_walk_keys_Cons simp del: walk_keys.simps parseAttribute.simps split: sum.splits)
  from Cons.prems(2) have d: "distinct (map fst ks)" and fresh: "key \<notin> fst ` set ks" by (auto simp: p)
  show ?case
  proof (cases "(f, m) = p")
    case True
    with p have eq: "f = key" "m = keyMeta" by auto
    from walk_keys_get_other [OF rest fresh] val show ?thesis
      by (simp add: eq map_of_obj_set del: parseAttribute.simps)
  next
    case False
    with Cons.prems(3) have "(f, m) \<in> set ks" by simp
    from Cons.IH [OF rest d this] show ?thesis .
  qed
qed

lemma walk_field:
  assumes "fst (walk V K ct data (OClass c)) = Inr result"
      and "ct c = Some reg" and "distinct (map fst reg)" and "(f, m) \<in> set reg"
  shows "\<exists>val. get_prop data f = Inr val \<and> get_prop result f = Inr (fst (parseAttribute V K ct val m))"
proof (cases "K c")
  case (Inl e)
  with assms(1) show ?thesis by simp
next
  case (Inr ps)
  with assms(1,2) have "fst (walk_keys V K ct data reg (Inst c ps)) = Inr result" by simp
  from walk_keys_field [OF this assms(3,4)] show ?thesis .
qed

lemma parseAttribute_is_promise: "\<exists>s. fst (parseAttribute V K ct val m) = Promise s"
  by (cases "type m") (auto split: sum.splits prod.splits settled.splits)

lemma walk_scalar_field:
  assumes "fst (walk V K ct data (OClass c)) = Inr result"
      and "ct c = Some reg" and "distinct (map fst reg)" and "(f, m) \<in> set reg"
      and "type m = Scalar"
  shows "\<exists>val. get_prop data f = Inr val \<and> get_prop result f = Inr (Promise (async_return val))"
  using walk_field [OF assms(1-4)] assms(5) by simp

section \<open>The walker: validation, scalars, missing metadata\<close>

text \<open>
  C1. The claim: for every Array-kind or Object-kind field, \<^verbatim>\<open>walk\<close> awaits the
  validation of each nested instance before it completes, and a validation failure is a
  failure of the \<^verbatim>\<open>walk\<close> call itself. On the code, \<^verbatim>\<open>walk\<close> stores the promise of
  \<^verbatim>\<open>parseAttribute\<close> without awaiting it: with a validation capability that fails on
  every instance, walking a \<^verbatim>\<open>Shelf\<close> whose \<^verbatim>\<open>first\<close> item has one tag returns an
  instance, successfully, and the failed validations of the tag and of the item are
  only the rejections of the promises held in the fields.
\<close>

theorem walk_returns_with_rejected_child:
  "walk reject_all bare catalogue
     (Obj [(''first'', Obj [(''id'', Num 7), (''tags'', Arr [Obj [(''label'', Str ''red'')]])])])
     (OClass ''Shelf'')
   = (Inr (Inst ''Shelf'' [(''first'', Promise (Rejected ValidationError))]),
      [Inst ''Tag'' [(''label'', Promise (Fulfilled (Str ''red'')))],
       Inst ''Item'' [(''id'', Promise (Fulfilled (Num 7))),
                      (''tags'', Promise (Rejected ValidationError))]])"
  by (simp add: catalogue_def bare_def reject_all_def)

text \<open>
  C2. The claim: for a Scalar-kind field, the instance returned by \<^verbatim>\<open>walk\<close> has
  exactly the raw value at that field (\<^verbatim>\<open>walk({field: 42}, C).field === 42\<close>).
  On the code, whatever the validation capability, the field \<^verbatim>\<open>label\<close> of the
  walked \<^verbatim>\<open>Tag\<close> holds a promise that resolves to the raw value, for \<^verbatim>\<open>42\<close> and
  for \<^verbatim>\<open>"x"\<close>, and reading the field does not give \<^verbatim>\<open>42\<close>.
\<close>

theorem walk_scalar_field_is_promise:
  "walk V bare catalogue (Obj [(''label'', Num 42)]) (OClass ''Tag'')
      = (Inr (Inst ''Tag'' [(''label'', Promise (Fulfilled (Num 42)))]), [])
   \<and> walk V bare catalogue (Obj [(''label'', Str ''x'')]) (OClass ''Tag'')
      = (Inr (Inst ''Tag'' [(''label'', Promise (Fulfilled (Str ''x'')))]), [])
   \<and> get_prop (Inst ''Tag'' [(''label'', Promise (Fulfilled (Num 42)))]) ''label'' \<noteq> Inr (Num 42)"
  by (simp add: catalogue_def bare_def)

text \<open>
  C3. The claim: \<^verbatim>\<open>walk\<close> on a class that was never annotated fails with the error
  \<^verbatim>\<open>Missing metadata\<close>, whatever the raw node. On the code, \<^verbatim>\<open>Object.keys(meta)\<close>
  runs before the test \<^verbatim>\<open>if (!meta)\<close>: for the class \<^verbatim>\<open>Plain\<close>, which has no
  registry, \<^verbatim>\<open>walk\<close> fails with a \<^verbatim>\<open>TypeError\<close> for every raw node and every
  validation capability, and for the empty mapping the error is not
  \<^verbatim>\<open>Error('Missing metadata!')\<close>.
\<close>

theorem walk_unannotated_class_TypeError:
  "walk V bare catalogue data (OClass ''Plain'') = (Inl TypeError, [])
   \<and> fst (walk V bare catalogue (Obj []) (OClass ''Plain'')) \<noteq> Inl (Error ''Missing metadata!'')"
  by (simp add: catalogue_def bare_def)

text \<open>
  C4. The claim: for an Array-kind field with elements valid, invalid, valid, \<^verbatim>\<open>walk\<close>
  fails with a validation error and the third element is never validated. On the code,
  with a validation capability that fails on the tag labelled \<^verbatim>\<open>bad\<close>, \<^verbatim>\<open>walk\<close>
  returns an \<^verbatim>\<open>Item\<close> successfully; the promise in \<^verbatim>\<open>tags\<close> is rejected with the
  validation error, and validation was invoked on the first and the second tag only.
\<close>

theorem walk_array_invalid_second_element:
  "walk (reject_label ''bad'') bare catalogue
     (Obj [(''id'', Num 7),
           (''tags'', Arr [Obj [(''label'', Str ''red'')], Obj [(''label'', Str ''bad'')],
                           Obj [(''label'', Str ''blue'')]])])
     (OClass ''Item'')
   = (Inr (Inst ''Item'' [(''id'', Promise (Fulfilled (Num 7))),
                          (''tags'', Promise (Rejected ValidationError))]),
      [Inst ''Tag'' [(''label'', Promise (Fulfilled (Str ''red'')))],
       Inst ''Tag'' [(''label'', Promise (Fulfilled (Str ''bad'')))]])"
  by (simp add: catalogue_def bare_def reject_label_def)

section \<open>Array fields\<close>

lemma fst_parse_elems_Cons:
  "fst (parse_elems V K ct (x # xs) c acc) =
     (case fst (walk V K ct x c) of
        Inl e \<Rightarrow> Rejected e
      | Inr i \<Rightarrow>
          (case V i of
             Rejected e \<Rightarrow> Rejected e
           | Fulfilled u \<Rightarrow> fst (parse_elems V K ct xs c (acc @ [i]))))"
  by (simp split: prod.splits sum.splits settled.splits)

lemma parse_elems_fulfilled_iff:
  "fst (parse_elems V K ct xs c acc) = Fulfilled ys
     \<longleftrightarrow> list_all (element_ok V K ct c) xs \<and> ys = Arr (acc @ map (walked V K ct c) xs)"
proof (induction xs arbitrary: acc)
  case Nil
  show ?case by auto
next
  case (Cons x xs)
  show ?case
    unfolding fst_parse_elems_Cons
    by (auto simp: Cons.IH element_ok_def walked_def split: sum.splits settled.splits)
qed

text \<open>
  Inside the promise the order is kept: for an Array-kind field with input sequence
  \<open>xs\<close>, the promise of \<^verbatim>\<open>parseAttribute\<close> is fulfilled with a sequence exactly when
  every element walks and validates, and that sequence is the list of the walked
  elements in the order of \<open>xs\<close>.
\<close>

lemma parseAttribute_array_fulfilled:
  assumes "type m = Array"
  shows "fst (parseAttribute V K ct (Arr xs) m) = Promise (Fulfilled ys)
            \<longleftrightarrow> list_all (element_ok V K ct (opts m)) xs \<and> ys = Arr (map (walked V K ct (opts m)) xs)"
  using assms parse_elems_fulfilled_iff [of V K ct xs "opts m" "[]" ys]
  by (auto split: prod.splits)

text \<open>No registered field of a walked instance is ever a sequence.\<close>

lemma walk_field_never_sequence:
  assumes "fst (walk V K ct data (OClass c)) = Inr result"
      and "ct c = Some reg" and "distinct (map fst reg)" and "(f, m) \<in> set reg"
  shows "get_prop result f \<noteq> Inr (Arr ys)"
proof -
  from walk_field [OF assms] obtain val where
    "get_prop result f = Inr (fst (parseAttribute V K ct val m))" by blast
  moreover obtain s where "fst (parseAttribute V K ct val m) = Promise s"
    using parseAttribute_is_promise by blast
  ultimately show ?thesis by simp
qed

text \<open>
  C6. The claim: for an Array-kind field with input sequence \<^verbatim>\<open>[a, b, c]\<close> the
  sequence produced by \<^verbatim>\<open>walk\<close> is \<^verbatim>\<open>[walk(a), walk(b), walk(c)]\<close>, and an empty
  input sequence yields an empty output sequence. On the code, with a validation
  capability that succeeds on every instance, the field \<^verbatim>\<open>tags\<close> of the walked
  \<^verbatim>\<open>Item\<close> is not a sequence: it holds the promise of \<^verbatim>\<open>parseAttribute\<close>, which is
  fulfilled with the three walked tags in source order; for the empty input sequence,
  and every validation capability, it holds a promise fulfilled with the empty
  sequence.
\<close>

theorem walk_array_field_is_promise:
  "walk accept_all bare catalogue
     (Obj [(''id'', Num 7),
           (''tags'', Arr [Obj [(''label'', Str ''a'')], Obj [(''label'', Str ''b'')],
                           Obj [(''label'', Str ''c'')]])])
     (OClass ''Item'')
   = (Inr (Inst ''Item''
        [(''id'', Promise (Fulfilled (Num 7))),
         (''tags'', Promise (Fulfilled (Arr
            [Inst ''Tag'' [(''label'', Promise (Fulfilled (Str ''a'')))],
             Inst ''Tag'' [(''label'', Promise (Fulfilled (Str ''b'')))],
             Inst ''Tag'' [(''label'', Promise (Fulfilled (Str ''c'')))]])))]),
      [Inst ''Tag'' [(''label'', Promise (Fulfilled (Str ''a'')))],
       Inst ''Tag'' [(''label'', Promise (Fulfilled (Str ''b'')))],
       Inst ''Tag'' [(''label'', Promise (Fulfilled (Str ''c'')))]])
   \<and> walk V bare catalogue (Obj [(''id'', Num 7), (''tags'', Arr [])]) (OClass ''Item'')
      = (Inr (Inst ''Item'' [(''id'', Promise (Fulfilled (Num 7))),
                             (''tags'', Promise (Fulfilled (Arr [])))]), [])
   \<and> get_prop (Inst ''Item'' [(''id'', Promise (Fulfilled (Num 7))),
                              (''tags'', Promise (Fulfilled (Arr [])))]) ''tags'' \<noteq> Inr (Arr [])"
  by (simp add: catalogue_def bare_def accept_all_def)

section \<open>Type classification\<close>

lemma new_Info_builtin:
  "new_Info K None = Inl TypeError"
  "new_Info K (Some Symbol_ctor) = Inl TypeError"
  "new_Info K (Some (Class_ctor c super)) = (case K c of Inl e \<Rightarrow> Inl e | Inr ps \<Rightarrow> Inr (Class_ctor c super))"
  "k \<in> {String_ctor, Number_ctor, Boolean_ctor, Array_ctor, Object_ctor, Function_ctor}
     \<Longrightarrow> new_Info K (Some k) = Inr k"
  by auto

lemma classify_declared_types:
  "map (\<lambda>k. map_sum id type (computeMetadata bare (\<lambda>t f. k) c f rn oo))
     [Some String_ctor, Some Number_ctor, Some Boolean_ctor, Some Array_ctor, Some Object_ctor,
      Some Function_ctor, Some (Class_ctor ''Tag'' Object_ctor), Some (Class_ctor ''Tags'' Array_ctor),
      Some (Class_ctor ''Name'' String_ctor), Some Symbol_ctor, None]
   = [Inr Scalar, Inr Scalar, Inr Scalar, Inr Array, Inr Object, Inr Object, Inr Object, Inr Array,
      Inr Scalar, Inl TypeError, Inl TypeError]"
  by (simp add: computeMetadata_def instanceof_def bare_def)

text \<open>
  C5. For a declared type that can be instantiated without arguments, the descriptor
  computed for the field has type Scalar exactly when the instance is an instance of
  \<^verbatim>\<open>String\<close>, \<^verbatim>\<open>Number\<close> or \<^verbatim>\<open>Boolean\<close>; otherwise Array exactly when
  \<^verbatim>\<open>Array.isArray\<close> holds of the instance; otherwise Object. The remote name and the
  options are stored as given.
\<close>

theorem computeMetadata_classifies:
  assumes "new_Info K (design_type target key) = Inr instance"
  shows "\<exists>m. computeMetadata K design_type target key rn childClass = Inr m
           \<and> remoteName m = rn \<and> opts m = childClass
           \<and> (type m = Scalar \<longleftrightarrow>
                 (instanceof instance String_ctor \<or> instanceof instance Number_ctor
                    \<or> instanceof instance Boolean_ctor))
           \<and> (type m = Array \<longleftrightarrow>
                 (\<not> (instanceof instance String_ctor \<or> instanceof instance Number_ctor
                    \<or> instanceof instance Boolean_ctor) \<and> Array_isArray instance))
           \<and> (type m = Object \<longleftrightarrow>
                 (\<not> (instanceof instance String_ctor \<or> instanceof instance Number_ctor
                    \<or> instanceof instance Boolean_ctor) \<and> \<not> Array_isArray instance))"
  using assms by (simp add: computeMetadata_def)

theorem computeMetadata_classifies_witness:
  "new_Info bare (declared ''Item'' ''tags'') = Inr Array_ctor
   \<and> (\<exists>m. computeMetadata bare declared ''Item'' ''tags'' ''Tags'' (OClass ''Tag'') = Inr m
          \<and> remoteName m = ''Tags'' \<and> opts m = OClass ''Tag'' \<and> type m = Array)"
  using computeMetadata_classifies [of bare declared "''Item''" "''tags''" Array_ctor "''Tags''" "OClass ''Tag''"]
  by (auto simp add: declared_def instanceof_def bare_def)

section \<open>The registry\<close>


lemma computeMetadata_Inr:
  "(\<exists>meta. computeMetadata K dt C k rn cc = Inr meta) \<longleftrightarrow> (\<exists>i. new_Info K (dt C k) = Inr i)"
  by (auto simp: computeMetadata_def split: sum.splits)






section \<open>Schema extraction\<close>

lemma extract_fuel_Suc:
  "extractMetaData n ct c = Some r \<Longrightarrow> extractMetaData (Suc n) ct c = Some r"
  "extract_keys n ct ks ret = Some r' \<Longrightarrow> extract_keys (Suc n) ct ks ret = Some r'"
proof (induction n ct c and n ct ks ret arbitrary: r and r' rule: extractMetaData_extract_keys.induct)
  case (1 ct target)
  then show ?case by simp
next
  case (2 n ct target)
  then show ?case by (auto split: sum.splits option.splits)
next
  case (3 n ct ret)
  then show ?case by simp
next
  case (4 n ct key keyMeta ks ret)
  show ?case
  proof (cases "opts keyMeta")
    case (OValue v)
    with 4 show ?thesis by simp
  next
    case (OClass c)
    show ?thesis
    proof (cases "ct c")
      case None
      with 4 OClass show ?thesis by simp
    next
      case (Some m')
      show ?thesis
      proof (cases "extractMetaData n ct c")
        case None
        with 4 OClass Some show ?thesis by simp
      next
        case (Some a)
        note ex = this
        from "4.IH" OClass \<open>ct c = Some m'\<close> ex
        have up: "extractMetaData (Suc n) ct c = Some a" by blast
        show ?thesis
        proof (cases a)
          case (Inl e)
          with "4.prems" OClass \<open>ct c = Some m'\<close> ex up show ?thesis
            by (auto simp del: extractMetaData.simps)
        next
          case (Inr s)
          from "4.prems" OClass \<open>ct c = Some m'\<close> ex Inr
          have "extract_keys n ct ks (obj_set ret key (SchemaField (remoteName keyMeta) (type keyMeta) (MetaSchema s))) = Some r'"
            by simp
          with "4.IH" OClass \<open>ct c = Some m'\<close> ex Inr
          have "extract_keys (Suc n) ct ks (obj_set ret key (SchemaField (remoteName keyMeta) (type keyMeta) (MetaSchema s))) = Some r'"
            by blast
          then show ?thesis using OClass \<open>ct c = Some m'\<close> up Inr
            by (simp del: extractMetaData.simps)
        qed
      qed
    qed
  qed
qed


lemma extract_fuel_mono:
  "extractMetaData n ct c = Some r \<Longrightarrow> n \<le> n' \<Longrightarrow> extractMetaData n' ct c = Some r"
proof (induction n' )
  case 0
  then show ?case by simp
next
  case (Suc n')
  show ?case
  proof (cases "n = Suc n'")
    case True
    with Suc.prems show ?thesis by simp
  next
    case False
    with Suc.prems have "n \<le> n'" by simp
    with Suc have "extractMetaData n' ct c = Some r" by simp
    then show ?thesis by (rule extract_fuel_Suc(1))
  qed
qed

lemma extract_keys_fold:
  assumes "\<And>k m c r. (k, m) \<in> set ks \<Longrightarrow> opts m = OClass c \<Longrightarrow> ct c = Some r
             \<Longrightarrow> extractMetaData n ct c = Some (Inr (S c))"
  shows "extract_keys n ct ks ret =
           Some (Inr (fold (\<lambda>(k, m) acc. obj_set acc k (SchemaField (remoteName m) (type m) (field_meta ct S m))) ks ret))"
  using assms
proof (induction ks arbitrary: ret)
  case Nil
  show ?case by simp
next
  case (Cons p ks)
  obtain k m where p: "p = (k, m)" by (cases p)
  have IH: "extract_keys n ct ks ret' =
           Some (Inr (fold (\<lambda>(k, m) acc. obj_set acc k (SchemaField (remoteName m) (type m) (field_meta ct S m))) ks ret'))" for ret'
    by (rule Cons.IH) (auto intro: Cons.prems)
  show ?case
  proof (cases "opts m")
    case (OValue v)
    then show ?thesis by (simp add: p IH field_meta_def)
  next
    case (OClass c)
    show ?thesis
    proof (cases "ct c")
      case None
      with OClass show ?thesis by (simp add: p IH field_meta_def)
    next
      case (Some r)
      have "extractMetaData n ct c = Some (Inr (S c))"
        by (rule Cons.prems [of k m c r]) (simp_all add: p OClass Some)
      with OClass Some show ?thesis by (simp add: p IH field_meta_def)
    qed
  qed
qed

lemma fold_obj_set_distinct:
  "distinct (map fst ks) \<Longrightarrow> fst ` set ks \<inter> fst ` set ret = {} \<Longrightarrow>
   fold (\<lambda>(k, m) acc. obj_set acc k (f m)) ks ret = ret @ map (\<lambda>(k, m). (k, f m)) ks"
proof (induction ks arbitrary: ret)
  case Nil
  show ?case by simp
next
  case (Cons p ks)
  obtain k m where p: "p = (k, m)" by (cases p)
  from Cons.prems have fresh: "k \<notin> fst ` set ret" by (auto simp: p)
  have "fold (\<lambda>(k, m) acc. obj_set acc k (f m)) ks (ret @ [(k, f m)])
          = (ret @ [(k, f m)]) @ map (\<lambda>(k, m). (k, f m)) ks"
    using Cons.prems by (intro Cons.IH) (auto simp: p)
  then show ?case by (simp add: p obj_set_fresh [OF fresh])
qed

lemma extracts_toI: "extractMetaData n ct c = Some (Inr s) \<Longrightarrow> extracts_to ct c s"
  unfolding extracts_to_def using extract_fuel_mono by blast

lemma extracts_to_unique: "extracts_to ct c s \<Longrightarrow> extracts_to ct c s' \<Longrightarrow> s = s'"
proof -
  assume "extracts_to ct c s" "extracts_to ct c s'"
  then obtain n0 n1 where
    a: "\<forall>n\<ge>n0. extractMetaData n ct c = Some (Inr s)" and
    b: "\<forall>n\<ge>n1. extractMetaData n ct c = Some (Inr s')"
    unfolding extracts_to_def by blast
  from a have "extractMetaData (max n0 n1) ct c = Some (Inr s)" by simp
  moreover from b have "extractMetaData (max n0 n1) ct c = Some (Inr s')" by simp
  ultimately show "s = s'" by simp
qed

text \<open>A depth that is enough for every nested class of a registry.\<close>

lemma common_depth:
  assumes "\<And>k m c' r'. (k, m) \<in> set ks \<Longrightarrow> opts m = OClass c' \<Longrightarrow> ct c' = Some r'
             \<Longrightarrow> extracts_to ct c' (S c')"
  shows "\<exists>n. \<forall>k m c' r'. (k, m) \<in> set ks \<longrightarrow> opts m = OClass c' \<longrightarrow> ct c' = Some r'
             \<longrightarrow> extractMetaData n ct c' = Some (Inr (S c'))"
  using assms
proof (induction ks)
  case Nil
  show ?case by simp
next
  case (Cons p ks)
  obtain k0 m0 where p: "p = (k0, m0)" by (cases p)
  have "\<exists>n. \<forall>k m c' r'. (k, m) \<in> set ks \<longrightarrow> opts m = OClass c' \<longrightarrow> ct c' = Some r'
             \<longrightarrow> extractMetaData n ct c' = Some (Inr (S c'))"
    by (rule Cons.IH) (auto intro: Cons.prems)
  then obtain n1 where n1: "\<And>k m c' r'. (k, m) \<in> set ks \<Longrightarrow> opts m = OClass c' \<Longrightarrow> ct c' = Some r'
             \<Longrightarrow> extractMetaData n1 ct c' = Some (Inr (S c'))" by blast
  have "\<exists>n0. \<forall>c' r'. opts m0 = OClass c' \<longrightarrow> ct c' = Some r'
             \<longrightarrow> (\<forall>n\<ge>n0. extractMetaData n ct c' = Some (Inr (S c')))"
  proof (cases "opts m0")
    case (OValue v)
    then show ?thesis by simp
  next
    case (OClass c0)
    show ?thesis
    proof (cases "ct c0")
      case None
      with OClass show ?thesis by simp
    next
      case (Some r0)
      have "extracts_to ct c0 (S c0)"
        by (rule Cons.prems [of k0 m0 c0 r0]) (simp_all add: p OClass Some)
      with OClass show ?thesis unfolding extracts_to_def by auto
    qed
  qed
  then obtain n0 where n0: "\<And>c' r' n. opts m0 = OClass c' \<Longrightarrow> ct c' = Some r' \<Longrightarrow> n0 \<le> n
             \<Longrightarrow> extractMetaData n ct c' = Some (Inr (S c'))" by blast
  have "extractMetaData (max n0 n1) ct c' = Some (Inr (S c'))"
    if "(k, m) \<in> set (p # ks)" "opts m = OClass c'" "ct c' = Some r'" for k m c' r'
  proof (cases "(k, m) = p")
    case True
    with p have "m = m0" by simp
    with that show ?thesis by (intro n0 [of c' r']) simp_all
  next
    case False
    with that(1) have "(k, m) \<in> set ks" by simp
    from n1 [OF this that(2,3)] show ?thesis
      by (rule extract_fuel_mono) simp
  qed
  then show ?case by blast
qed

lemma extracts_to_step:
  assumes reg: "ct c = Some reg"
      and nested: "\<And>k m c' r'. (k, m) \<in> set reg \<Longrightarrow> opts m = OClass c' \<Longrightarrow> ct c' = Some r'
             \<Longrightarrow> extracts_to ct c' (S c')"
  shows "extracts_to ct c
           (fold (\<lambda>(k, m) acc. obj_set acc k (SchemaField (remoteName m) (type m) (field_meta ct S m))) reg [])"
proof -
  from common_depth [of reg ct S] nested obtain n where
    n: "\<And>k m c' r'. (k, m) \<in> set reg \<Longrightarrow> opts m = OClass c' \<Longrightarrow> ct c' = Some r'
             \<Longrightarrow> extractMetaData n ct c' = Some (Inr (S c'))" by blast
  have "extract_keys n ct reg [] =
           Some (Inr (fold (\<lambda>(k, m) acc. obj_set acc k (SchemaField (remoteName m) (type m) (field_meta ct S m))) reg []))"
    by (rule extract_keys_fold) (rule n)
  with reg have "extractMetaData (Suc n) ct c =
           Some (Inr (fold (\<lambda>(k, m) acc. obj_set acc k (SchemaField (remoteName m) (type m) (field_meta ct S m))) reg []))"
    by simp
  then show ?thesis by (rule extracts_toI)
qed

text \<open>
  Every class reached from an annotated class is annotated, and finitely many reachable
  classes without a cycle make the references well-founded.
\<close>

lemma reachable_annotated:
  "(C, c) \<in> rtrancl (nested_classes ct) \<Longrightarrow> ct C = Some reg \<Longrightarrow> \<exists>r. ct c = Some r"
  by (erule rtranclE) (auto simp: nested_classes_def)

lemma wf_nested:
  assumes ac: "acyclic_from ct C"
      and fin: "finite (rtrancl (nested_classes ct) `` {C})"
  shows "wf {(c', c). (c, c') \<in> nested_classes ct \<and> (C, c) \<in> rtrancl (nested_classes ct)}"
proof (rule finite_acyclic_wf)
  let ?N = "nested_classes ct"
  let ?r = "{(c', c). (c, c') \<in> ?N \<and> (C, c) \<in> rtrancl ?N}"
  have "?r \<subseteq> (rtrancl ?N `` {C}) \<times> (rtrancl ?N `` {C})"
    by (auto intro: rtrancl_into_rtrancl)
  with fin show "finite ?r" by (meson finite_SigmaI finite_subset)
  have sub: "?r \<subseteq> converse ?N" by auto
  show "acyclic ?r"
  proof (rule acyclicI, rule allI, rule notI)
    fix x
    assume xx: "(x, x) \<in> trancl ?r"
    then obtain z where "(z, x) \<in> ?r" by (meson tranclD2)
    then have reach: "(C, x) \<in> rtrancl ?N" by simp
    from xx sub have "(x, x) \<in> trancl (converse ?N)" by (meson trancl_mono)
    then have "(x, x) \<in> trancl ?N" by (simp add: trancl_converse)
    with ac reach show False unfolding acyclic_from_def by blast
  qed
qed

lemma extract_total:
  assumes ac: "acyclic_from ct C"
      and fin: "finite (rtrancl (nested_classes ct) `` {C})"
      and C: "ct C = Some reg"
  shows "(C, c) \<in> rtrancl (nested_classes ct) \<Longrightarrow> \<exists>s. extracts_to ct c s"
proof (induction c rule: wf_induct_rule [OF wf_nested [OF ac fin]])
  case (1 c)
  from reachable_annotated [OF "1.prems" C] obtain r where r: "ct c = Some r" by blast
  define S where "S c' = (SOME s. extracts_to ct c' s)" for c'
  have nested: "extracts_to ct c' (S c')" if "(k, m) \<in> set r" "opts m = OClass c'" "ct c' = Some r'" for k m c' r'
  proof -
    from that r have edge: "(c, c') \<in> nested_classes ct" unfolding nested_classes_def by blast
    with "1.prems" have "(C, c') \<in> rtrancl (nested_classes ct)" by (rule rtrancl_into_rtrancl)
    moreover from edge "1.prems"
    have "(c', c) \<in> {(c', c). (c, c') \<in> nested_classes ct \<and> (C, c) \<in> rtrancl (nested_classes ct)}"
      by simp
    ultimately have "\<exists>s. extracts_to ct c' s" by (rule "1.IH" [rotated])
    then show ?thesis unfolding S_def by (rule someI_ex)
  qed
  have "extracts_to ct c
          (fold (\<lambda>(k, m) acc. obj_set acc k (SchemaField (remoteName m) (type m) (field_meta ct S m))) r [])"
    by (rule extracts_to_step [where ct = ct and c = c and reg = r and S = S])
       (rule r, blast intro: nested)
  then show ?case by blast
qed

lemma acyclic_from_ranked:
  assumes C: "C \<in> R"
      and step: "\<And>c c'. c \<in> R \<Longrightarrow> (c, c') \<in> nested_classes ct \<Longrightarrow> c' \<in> R \<and> d c' < (d c :: nat)"
  shows "acyclic_from ct C" and "rtrancl (nested_classes ct) `` {C} \<subseteq> R"
proof -
  have reach: "c \<in> R" if "(C, c) \<in> rtrancl (nested_classes ct)" for c
    using that by (induction rule: rtrancl_induct) (auto simp: C dest: step)
  have down: "x \<in> R \<and> d x < d c" if "(c, x) \<in> trancl (nested_classes ct)" "c \<in> R" for c x
    using that
  proof (induction rule: trancl_induct)
    case (base y)
    then show ?case by (auto dest: step)
  next
    case (step y z)
    then have "y \<in> R" "d y < d c" by simp_all
    moreover from \<open>y \<in> R\<close> \<open>(y, z) \<in> nested_classes ct\<close> have "z \<in> R \<and> d z < d y"
      by (rule assms(2))
    ultimately show ?case by simp
  qed
  show "acyclic_from ct C"
    unfolding acyclic_from_def using reach down by (metis less_irrefl)
  show "rtrancl (nested_classes ct) `` {C} \<subseteq> R"
    using reach by auto
qed

lemma linked_diverges: "extractMetaData n linked ''Node'' = None"
  by (induction n) (simp_all add: linked_def)

text \<open>
  C8, as stated, fails on a class that refers to itself: for the class \<^verbatim>\<open>Node\<close>,
  whose field \<^verbatim>\<open>next\<close> is of class \<^verbatim>\<open>Node\<close>, \<^verbatim>\<open>extractMetaData\<close> returns no
  schema, however deep the recursion is allowed to go.
\<close>

theorem extractMetaData_cyclic_counterexample:
  "\<not> (\<exists>n s. extractMetaData n linked ''Node'' = Some (Inr s))"
  by (simp add: linked_diverges)

text \<open>
  C8, amended. Let \<open>C\<close> be a class with a registry whose chain of nested classes is
  acyclic (of the finitely many classes that \<open>C\<close> reaches, none reaches itself; classes
  that \<open>C\<close> does not reach may be cyclic). Then \<^verbatim>\<open>extractMetaData\<close> returns a schema
  \<open>S c\<close> for every class \<open>c\<close> that \<open>C\<close> reaches, and the schema of \<open>C\<close> lists the
  registered fields of \<open>C\<close> in order, each with its remote name, its type and as
  \<^verbatim>\<open>meta\<close> the schema of the nested class when the options are an annotated class and
  the options unchanged otherwise.
\<close>

theorem extractMetaData_acyclic:
  assumes ac: "acyclic_from ct C"
      and fin: "finite (rtrancl (nested_classes ct) `` {C})"
      and C: "ct C = Some reg"
      and dist: "distinct (map fst reg)"
  shows "\<exists>S. (\<forall>c. (C, c) \<in> rtrancl (nested_classes ct) \<longrightarrow> extracts_to ct c (S c))
           \<and> S C = map (\<lambda>(k, m). (k, SchemaField (remoteName m) (type m) (field_meta ct S m))) reg"
proof -
  define S where "S c = (SOME s. extracts_to ct c s)" for c
  have tot: "extracts_to ct c (S c)" if "(C, c) \<in> rtrancl (nested_classes ct)" for c
    unfolding S_def using extract_total [OF ac fin C that] by (rule someI_ex)
  have nested: "extracts_to ct c' (S c')" if "(k, m) \<in> set reg" "opts m = OClass c'" "ct c' = Some r'" for k m c' r'
  proof -
    from that C have "(C, c') \<in> nested_classes ct" unfolding nested_classes_def by blast
    then show ?thesis by (intro tot) simp
  qed
  have "extracts_to ct C
          (fold (\<lambda>(k, m) acc. obj_set acc k (SchemaField (remoteName m) (type m) (field_meta ct S m))) reg [])"
    by (rule extracts_to_step [where ct = ct and c = C and reg = reg and S = S])
       (rule C, blast intro: nested)
  moreover have "extracts_to ct C (S C)" by (rule tot) simp
  ultimately have "S C =
          fold (\<lambda>(k, m) acc. obj_set acc k (SchemaField (remoteName m) (type m) (field_meta ct S m))) reg []"
    by (rule extracts_to_unique [symmetric])
  also have "\<dots> = map (\<lambda>(k, m). (k, SchemaField (remoteName m) (type m) (field_meta ct S m))) reg"
    using fold_obj_set_distinct [OF dist, of "[]" "\<lambda>m. SchemaField (remoteName m) (type m) (field_meta ct S m)"]
    by simp
  finally show ?thesis using tot by blast
qed

lemma catalogue_with_node_Item:
  "acyclic_from catalogue_with_node ''Item''"
  "rtrancl (nested_classes catalogue_with_node) `` {''Item''} \<subseteq> {''Item'', ''Tag''}"
proof -
  have step: "c' \<in> {''Item'', ''Tag''} \<and> (if c' = ''Item'' then 1 else 0) < (if c = ''Item'' then 1 else (0::nat))"
    if "c \<in> {''Item'', ''Tag''}" "(c, c') \<in> nested_classes catalogue_with_node" for c c'
    using that
    by (auto simp: nested_classes_def catalogue_with_node_def catalogue_def linked_def split: if_splits)
  show "acyclic_from catalogue_with_node ''Item''"
    by (rule acyclic_from_ranked(1) [of "''Item''" "{''Item'', ''Tag''}" catalogue_with_node
          "\<lambda>c. if c = ''Item'' then 1 else 0"]) (simp, rule step)
  show "rtrancl (nested_classes catalogue_with_node) `` {''Item''} \<subseteq> {''Item'', ''Tag''}"
    by (rule acyclic_from_ranked(2) [of "''Item''" "{''Item'', ''Tag''}" catalogue_with_node
          "\<lambda>c. if c = ''Item'' then 1 else 0"]) (simp, rule step)
qed

lemma catalogue_with_node_cyclic:
  "\<not> acyclic_from catalogue_with_node ''Node''"
proof -
  have "(''Node'', ''Node'') \<in> nested_classes catalogue_with_node"
    by (simp add: nested_classes_def catalogue_with_node_def linked_def)
  then have "(''Node'', ''Node'') \<in> trancl (nested_classes catalogue_with_node)" by (rule r_into_trancl)
  then show ?thesis unfolding acyclic_from_def by blast
qed

theorem extractMetaData_acyclic_witness:
  "acyclic_from catalogue_with_node ''Item''
   \<and> finite (rtrancl (nested_classes catalogue_with_node) `` {''Item''})
   \<and> catalogue_with_node ''Item'' =
        Some [(''id'', \<lparr>remoteName = ''ID'', opts = OValue Undefined, type = Scalar\<rparr>),
              (''tags'', \<lparr>remoteName = ''Tags'', opts = OClass ''Tag'', type = Array\<rparr>)]
   \<and> distinct (map fst
        [(''id'', \<lparr>remoteName = ''ID'', opts = OValue Undefined, type = Scalar\<rparr>),
         (''tags'', \<lparr>remoteName = ''Tags'', opts = OClass ''Tag'', type = Array\<rparr>)])
   \<and> extracts_to catalogue_with_node ''Item''
        [(''id'', SchemaField ''ID'' Scalar (MetaOpts (OValue Undefined))),
         (''tags'', SchemaField ''Tags'' Array
            (MetaSchema [(''label'', SchemaField ''Label'' Scalar (MetaOpts (OValue Undefined)))]))]
   \<and> extractMetaData 2 catalogue_with_node ''Item'' =
        Some (Inr [(''id'', SchemaField ''ID'' Scalar (MetaOpts (OValue Undefined))),
                   (''tags'', SchemaField ''Tags'' Array
                      (MetaSchema [(''label'', SchemaField ''Label'' Scalar (MetaOpts (OValue Undefined)))]))])"
proof -
  define ct where "ct = catalogue_with_node"
  define item where "item = ''Item''"
  define tag where "tag = ''Tag''"
  define reg where "reg =
        [(''id'', \<lparr>remoteName = ''ID'', opts = OValue Undefined, type = Scalar\<rparr>),
         (''tags'', \<lparr>remoteName = ''Tags'', opts = OClass tag, type = Array\<rparr>)]"
  define label where "label = [(''label'', SchemaField ''Label'' Scalar (MetaOpts (OValue Undefined)))]"
  have h1: "acyclic_from ct item" unfolding ct_def item_def by (rule catalogue_with_node_Item(1))
  have h2: "finite (rtrancl (nested_classes ct) `` {item})"
    unfolding ct_def item_def using catalogue_with_node_Item(2) by (rule finite_subset) simp
  have h3: "ct item = Some reg"
    by (simp add: ct_def item_def tag_def reg_def catalogue_with_node_def catalogue_def)
  have h4: "distinct (map fst reg)" by (simp add: reg_def)
  have tagreg: "ct tag = Some [(''label'', \<lparr>remoteName = ''Label'', opts = OValue Undefined, type = Scalar\<rparr>)]"
    by (simp add: ct_def tag_def catalogue_with_node_def catalogue_def)
  from extractMetaData_acyclic [OF h1 h2 h3 h4] obtain S where
    tot: "\<And>c. (item, c) \<in> rtrancl (nested_classes ct) \<Longrightarrow> extracts_to ct c (S c)"
    and SI: "S item = map (\<lambda>(k, m). (k, SchemaField (remoteName m) (type m) (field_meta ct S m))) reg"
    by blast
  have "(''tags'', \<lparr>remoteName = ''Tags'', opts = OClass tag, type = Array\<rparr>) \<in> set reg"
    by (simp add: reg_def)
  moreover have "opts \<lparr>remoteName = ''Tags'', opts = OClass tag, type = Array\<rparr> = OClass tag"
    by simp
  ultimately have "(item, tag) \<in> nested_classes ct"
    unfolding nested_classes_def using h3 tagreg by blast
  then have "extracts_to ct tag (S tag)" by (intro tot) simp
  moreover have "extractMetaData 1 ct tag = Some (Inr label)"
    by (simp add: tagreg label_def)
  then have "extracts_to ct tag label" by (rule extracts_toI)
  ultimately have ST: "S tag = label" by (rule extracts_to_unique)
  have SI': "S item = [(''id'', SchemaField ''ID'' Scalar (MetaOpts (OValue Undefined))),
                       (''tags'', SchemaField ''Tags'' Array (MetaSchema label))]"
    unfolding SI by (simp add: reg_def field_meta_def tagreg ST)
  have "extracts_to ct item (S item)" by (rule tot) simp
  with SI' have h5: "extracts_to ct item
       [(''id'', SchemaField ''ID'' Scalar (MetaOpts (OValue Undefined))),
        (''tags'', SchemaField ''Tags'' Array (MetaSchema label))]" by simp
  have h6: "extractMetaData 2 ct item =
       Some (Inr [(''id'', SchemaField ''ID'' Scalar (MetaOpts (OValue Undefined))),
                  (''tags'', SchemaField ''Tags'' Array (MetaSchema label))])"
    by (simp add: h3 reg_def tagreg label_def numeral_2_eq_2)
  from h1 h2 h3 h4 h5 h6 show ?thesis
    unfolding ct_def item_def tag_def reg_def label_def by (intro conjI)
qed

section \<open>The module\<close>

lemma import_keeps_staticData: "staticData (snd (import env m data)) = staticData m"
  by (simp add: import_def store_def load_def split: sum.splits prod.splits)

lemma import_reaches_store_example:
  "import memory_env fresh_module (Str ''{}'')
     = (Inr (), fresh_module \<lparr>backend := Some ''{}'', events := [Stored ''{}'', Loaded]\<rparr>)"
  by (simp add: import_def validate_def parse_def store_def load_def stringify_def
        memory_env_def fresh_module_def toy_parse_def catalogue_def bare_def)

lemma setup_load_failure_example:
  "module_setup memory_env fresh_module
     = (Inr (), fresh_module \<lparr>events := [Loaded, CalledBack None]\<rparr>)"
  by (simp add: module_setup_def load_def memory_env_def fresh_module_def bare_def)

lemma setup_success_example:
  "module_setup memory_env (fresh_module \<lparr>backend := Some ''{}''\<rparr>)
     = (Inr (), fresh_module
          \<lparr> staticData := Inst ''Item'' [(''id'', Promise (Fulfilled Undefined)),
                                          (''tags'', Promise (Rejected TypeError))],
            backend := Some ''{}'', events := [Loaded, CalledBack None] \<rparr>)"
  by (simp add: module_setup_def load_def parse_def memory_env_def fresh_module_def toy_parse_def
        catalogue_def bare_def)

text \<open>
  C9. When the walk performed by the validate step of \<^verbatim>\<open>import\<close> fails, the import
  fails with that error and the module is as before: \<^verbatim>\<open>staticData\<close> is the same
  instance, no store and no load has happened, and the backend is untouched.
\<close>

theorem import_failed_walk:
  assumes "JSON_parse env data = Inr raw"
      and "fst (walk (validator_validate env) (construct env) (classes env) raw (OClass (StaticDataClass m))) = Inl e"
  shows "import env m data = (Inl e, m)
         \<and> staticData (snd (import env m data)) = staticData m
         \<and> events (snd (import env m data)) = events m
         \<and> backend (snd (import env m data)) = backend m"
  using assms by (simp add: import_def validate_def parse_def)

theorem import_failed_walk_witness:
  "JSON_parse memory_env (Str ''null'') = Inr Null
   \<and> fst (walk (validator_validate memory_env) (construct memory_env) (classes memory_env) Null
            (OClass (StaticDataClass fresh_module))) = Inl TypeError
   \<and> import memory_env fresh_module (Str ''null'') = (Inl TypeError, fresh_module)
   \<and> staticData (snd (import memory_env fresh_module (Str ''null''))) = Inst ''Item'' []
   \<and> events (snd (import memory_env fresh_module (Str ''null''))) = []"
proof -
  have h1: "JSON_parse memory_env (Str ''null'') = Inr Null"
    by (simp add: memory_env_def toy_parse_def)
  have h2: "fst (walk (validator_validate memory_env) (construct memory_env) (classes memory_env) Null
            (OClass (StaticDataClass fresh_module))) = Inl TypeError"
    by (simp add: memory_env_def fresh_module_def catalogue_def bare_def)
  from import_failed_walk [OF h1 h2] have
    "import memory_env fresh_module (Str ''null'') = (Inl TypeError, fresh_module)" by (rule conjunct1)
  with h1 h2 show ?thesis by (simp add: fresh_module_def)
qed




end
